theory Spec2Isabelle
  imports Main "HOL-Library.AList"
begin

section \<open>Collaborators from the host editor\<close>

text \<open>
  The sessions use two classes of the host editor's event library: an \<open>Emitter\<close>, which
  calls every handler registered for an event name, and a \<open>CompositeDisposable\<close>, which
  holds subscriptions and disposes them together, once. Handlers and subscriptions are
  identified by numbers and names; what a handler does is outside this development, so
  calling one is recorded as an event of the trace.
\<close>

type_synonym editor_id = nat
type_synonym message = string

record js_error =
  message :: string
  stack :: string

text \<open>
  What a promise is rejected with, or what a function throws: an error object, which has
  a \<open>message\<close> and a \<open>stack\<close>, or \<open>undefined\<close> or \<open>null\<close>, on which reading a property
  throws in turn. A thrown value of any other kind is left out: its \<open>message\<close> reads as
  \<open>undefined\<close>, and what the host's notifications make of that is outside these sources.
\<close>

datatype js_reason = ErrorObject js_error | Nullish

record analyzer =
  ident :: nat
  grammarScopes :: "string list"
  lintOnFly :: "bool option"
  scope :: string

datatype event =
    LockGet string
  | LockSet string bool
  | Invoke analyzer
  | AddError string string
  | Notify string nat
  | Render
  | Disposed string
  | GutterDestroyed

record emitter =
  handlersByEventName :: "(string \<times> nat) list"
  isDisposed :: bool

definition emitter_new :: emitter where
  "emitter_new = \<lparr>handlersByEventName = [], isDisposed = False\<rparr>"

definition handlers_for :: "emitter \<Rightarrow> string \<Rightarrow> nat list" where
  "handlers_for em name = map snd (filter (\<lambda>h. fst h = name) (handlersByEventName em))"

text \<open>\<open>emit\<close> calls the handlers of the event in registration order; a disposed emitter has none.\<close>

definition emit :: "emitter \<Rightarrow> string \<Rightarrow> event list" where
  "emit em name = (if isDisposed em then [] else map (Notify name) (handlers_for em name))"

text \<open>\<open>on\<close> raises on a disposed emitter.\<close>

definition emitter_on :: "string \<Rightarrow> nat \<Rightarrow> emitter \<Rightarrow> js_error + emitter" where
  "emitter_on name cb em =
     (if isDisposed em then Inl \<lparr>message = ''Emitter has been disposed'', stack = []\<rparr>
      else Inr (em\<lparr>handlersByEventName := handlersByEventName em @ [(name, cb)]\<rparr>))"

definition emitter_dispose :: "emitter \<Rightarrow> emitter" where
  "emitter_dispose em = em\<lparr>handlersByEventName := [], isDisposed := True\<rparr>"

record composite_disposable =
  disposables :: "string list"
  disposed :: bool

definition composite_new :: composite_disposable where
  "composite_new = \<lparr>disposables = [], disposed = False\<rparr>"

definition composite_add :: "string \<Rightarrow> composite_disposable \<Rightarrow> composite_disposable" where
  "composite_add d c = (if disposed c then c else c\<lparr>disposables := disposables c @ [d]\<rparr>)"

text \<open>Disposing returns the events of the subscriptions it disposes and the emptied container.\<close>

definition composite_dispose :: "composite_disposable \<Rightarrow> event list \<times> composite_disposable" where
  "composite_dispose c =
     (if disposed c then ([], c)
      else (map Disposed (disposables c), c\<lparr>disposables := [], disposed := True\<rparr>))"

section \<open>lib/editor-linter.coffee\<close>

text \<open>
  The \<open>@linter\<close> object the session is constructed with: the active editor, the global
  lint-on-the-fly toggle, the registered analyzers (a \<open>Set\<close>, held here in insertion
  order) and the project-level message map, which every session shares.
\<close>

record linter_main =
  activeEditor :: editor_id
  lintOnFlyGlobal :: bool
  linters :: "analyzer list"
  messagesProject :: "analyzer \<rightharpoonup> message list"

text \<open>
  The session. \<open>props\<close> holds the properties that \<open>_lock\<close> reads and writes by computed
  name: the constructor creates \<open>_inProgress\<close> and \<open>_inProgressFly\<close>, an absent property
  reads as \<open>undefined\<close> (\<open>None\<close>).
\<close>

record editor_linter =
  editor :: editor_id
  messages :: "analyzer \<rightharpoonup> message list"
  props :: "string \<rightharpoonup> bool"
  emitter :: emitter
  subscriptions :: composite_disposable

text \<open>
  A run is the array of promises one call of \<open>lint\<close> hands to \<open>Promise.all\<close>:
  the analyzers whose promise chain has not settled yet, whether one of the chains has
  ended in a rejection, which rejects \<open>Promise.all\<close>, and whether the reaction that
  follows the fulfilment of \<open>Promise.all\<close> has run.
\<close>

record run =
  triggeredOnChange :: bool
  unsettled :: "analyzer list"
  rejected :: bool
  released :: bool

record world =
  linter :: linter_main
  session :: editor_linter
  runs :: "run list"
  trace :: "event list"

text \<open>What \<open>linter.lint(@editor)\<close> comes to: a value, or a throw or rejection.\<close>

datatype 'r outcome = Resolved 'r | Rejected js_reason

definition constructor :: "editor_id \<Rightarrow> editor_linter" where
  "constructor ed =
     \<lparr>editor = ed,
      messages = Map.empty,
      props = [''_inProgress'' \<mapsto> False, ''_inProgressFly'' \<mapsto> False],
      emitter = emitter_new,
      subscriptions =
        composite_add ''onDidStopChanging''
          (composite_add ''onDidChangeCursorPosition''
            (composite_add ''onDidSave'' composite_new))\<rparr>"

definition getMessages :: "editor_linter \<Rightarrow> analyzer \<rightharpoonup> message list" where
  "getMessages s = messages s"

definition deleteMessages :: "analyzer \<Rightarrow> editor_linter \<Rightarrow> editor_linter" where
  "deleteMessages a s = s\<lparr>messages := (messages s)(a := None)\<rparr>"

definition setMessages :: "analyzer \<Rightarrow> message list \<Rightarrow> editor_linter \<Rightarrow> editor_linter" where
  "setMessages a ms s = s\<lparr>messages := (messages s)(a \<mapsto> ms)\<rparr>"

definition onDidUpdate :: "nat \<Rightarrow> editor_linter \<Rightarrow> js_error + editor_linter" where
  "onDidUpdate cb s =
     (case emitter_on ''did-update'' cb (emitter s) of
        Inl e \<Rightarrow> Inl e
      | Inr em \<Rightarrow> Inr (s\<lparr>emitter := em\<rparr>))"

definition onDidDestroy :: "nat \<Rightarrow> editor_linter \<Rightarrow> js_error + editor_linter" where
  "onDidDestroy cb s =
     (case emitter_on ''did-destroy'' cb (emitter s) of
        Inl e \<Rightarrow> Inl e
      | Inr em \<Rightarrow> Inr (s\<lparr>emitter := em\<rparr>))"

text \<open>\<open>destroy\<close>: emit \<open>did-destroy\<close>, then dispose the subscriptions. The emitter is kept.\<close>

definition destroy :: "world \<Rightarrow> world" where
  "destroy W =
     (let s = session W;
          notes = emit (emitter s) ''did-destroy'';
          (gone, subs) = composite_dispose (subscriptions s)
      in W\<lparr>session := s\<lparr>subscriptions := subs\<rparr>, trace := trace W @ notes @ gone\<rparr>)"

text \<open>
  \<open>_lock\<close> computes its key with \<open>wasTriggeredOnChange ? '_inProgressFly' : '_inProgress'\<close>.
  CoffeeScript has no conditional operator: \<open>?\<close> is the existential operator and what
  follows it is the object literal \<open>{'_inProgressFly': '_inProgress'}\<close>, used only when
  the left operand is \<open>null\<close> or \<open>undefined\<close>. Both callers pass a boolean, so the key is
  the boolean itself, and the property it names is \<open>true\<close> or \<open>false\<close>.
\<close>

definition lock_key :: "bool \<Rightarrow> string" where
  "lock_key wasTriggeredOnChange = (if wasTriggeredOnChange then ''true'' else ''false'')"

definition truthy :: "bool option \<Rightarrow> bool" where
  "truthy v = (v = Some True)"

text \<open>\<open>_lock\<close> with one argument reads the property, with two it writes it.\<close>

definition priv_lock_get :: "bool \<Rightarrow> world \<Rightarrow> bool option \<times> world" where
  "priv_lock_get wasTriggeredOnChange W =
     (props (session W) (lock_key wasTriggeredOnChange),
      W\<lparr>trace := trace W @ [LockGet (lock_key wasTriggeredOnChange)]\<rparr>)"

definition priv_lock_set :: "bool \<Rightarrow> bool \<Rightarrow> world \<Rightarrow> world" where
  "priv_lock_set wasTriggeredOnChange val W =
     W\<lparr>session := (session W)\<lparr>props := (props (session W))(lock_key wasTriggeredOnChange \<mapsto> val)\<rparr>,
       trace := trace W @ [LockSet (lock_key wasTriggeredOnChange) val]\<rparr>"

text \<open>
  \<open>_lint\<close> walks the registry. With the global toggle on it skips an analyzer whose
  \<open>lintOnFly\<close> is not identical to the trigger kind; it skips one none of whose grammar
  scopes is among the scopes; every other analyzer is invoked at once (the promise's
  executor runs synchronously) and its promise is pushed.
\<close>

fun priv_lint :: "bool \<Rightarrow> bool \<Rightarrow> string list \<Rightarrow> analyzer list \<Rightarrow> analyzer list" where
  "priv_lint lintOnFlyG wasTriggeredOnChange scopes [] = []"
| "priv_lint lintOnFlyG wasTriggeredOnChange scopes (a # rest) =
     (if lintOnFlyG \<and> Some wasTriggeredOnChange \<noteq> lintOnFly a
        then priv_lint lintOnFlyG wasTriggeredOnChange scopes rest
      else if \<not> list_ex (\<lambda>entry. entry \<in> set (grammarScopes a)) scopes
        then priv_lint lintOnFlyG wasTriggeredOnChange scopes rest
      else a # priv_lint lintOnFlyG wasTriggeredOnChange scopes rest)"

text \<open>
  \<open>lint\<close>. The second argument is what the editor reports as the scopes at the cursor.
\<close>

definition lint :: "bool \<Rightarrow> string list \<Rightarrow> world \<Rightarrow> world" where
  "lint wasTriggeredOnChange cursorScopes W =
     (if editor (session W) \<noteq> activeEditor (linter W) then W
      else
        (let (held, W1) = priv_lock_get wasTriggeredOnChange W in
         if truthy held then W1
         else
           (let scopes = cursorScopes @ [''*''];
                promises = priv_lint (lintOnFlyGlobal (linter W1)) wasTriggeredOnChange scopes
                             (linters (linter W1))
            in W1\<lparr>runs := runs W1 @
                     [\<lparr>triggeredOnChange = wasTriggeredOnChange, unsettled = promises,
                       rejected = False, released = False\<rparr>],
                   trace := trace W1 @ map Invoke promises\<rparr>)))"

text \<open>
  The chain behind one analyzer's promise. \<open>validateResults\<close> is the helper of
  \<open>./helpers\<close>, taken as a parameter: it returns the diagnostics or throws. A failure
  of the analyzer or of the validation reaches the \<open>catch\<close> handler, which reads
  \<open>error.message\<close> and \<open>error.stack\<close>, raises one error notification and continues with
  the empty list. On \<open>undefined\<close> or \<open>null\<close> the read throws a \<open>TypeError\<close>: the handler
  raises nothing and the chain ends rejected.
\<close>

definition catch_handler :: "js_reason \<Rightarrow> js_error + event list \<times> message list" where
  "catch_handler error =
     (case error of
        ErrorObject e \<Rightarrow> Inr ([AddError (message e) (stack e)], [])
      | Nullish \<Rightarrow> Inl \<lparr>message = ''TypeError: cannot read property message'', stack = []\<rparr>)"

definition collect ::
  "('r \<Rightarrow> js_reason + message list) \<Rightarrow> 'r outcome \<Rightarrow> js_error + event list \<times> message list" where
  "collect validateResults out =
     (case out of
        Rejected error \<Rightarrow> catch_handler error
      | Resolved v \<Rightarrow>
          (case validateResults v of
             Inl error \<Rightarrow> catch_handler error
           | Inr results \<Rightarrow> Inr ([], results)))"

definition store :: "analyzer \<Rightarrow> message list \<Rightarrow> world \<Rightarrow> world" where
  "store a results W =
     (if scope a = ''project''
      then W\<lparr>linter := (linter W)\<lparr>messagesProject := (messagesProject (linter W))(a \<mapsto> results)\<rparr>\<rparr>
      else W\<lparr>session := setMessages a results (session W)\<rparr>)"

text \<open>
  \<open>settle i a out\<close> runs the chain of analyzer \<open>a\<close> in run \<open>i\<close> when that promise is
  still unsettled, and does nothing otherwise. A chain that ends rejected skips the last
  reaction, the one that writes the result, and rejects the \<open>Promise.all\<close> of its run.
\<close>

definition settle ::
  "('r \<Rightarrow> js_reason + message list) \<Rightarrow> nat \<Rightarrow> analyzer \<Rightarrow> 'r outcome \<Rightarrow> world \<Rightarrow> world" where
  "settle validateResults i a out W =
     (if i < length (runs W) \<and> a \<in> set (unsettled (runs W ! i)) then
        (case collect validateResults out of
           Inl uncaught \<Rightarrow>
             W\<lparr>runs := (runs W)[i := (runs W ! i)\<lparr>unsettled := remove1 a (unsettled (runs W ! i)),
                                                  rejected := True\<rparr>]\<rparr>
         | Inr (notes, results) \<Rightarrow>
             (let W1 = store a results (W\<lparr>trace := trace W @ notes\<rparr>);
                  W2 = W1\<lparr>trace := trace W1 @ emit (emitter (session W1)) ''did-update''\<rparr>;
                  W3 = (if editor (session W2) = activeEditor (linter W2)
                        then W2\<lparr>trace := trace W2 @ [Render]\<rparr> else W2)
              in W3\<lparr>runs := (runs W3)[i := (runs W3 ! i)\<lparr>unsettled :=
                                                        remove1 a (unsettled (runs W3 ! i))\<rparr>]\<rparr>))
      else W)"

text \<open>
  \<open>release i\<close> is the reaction to the fulfilment of \<open>Promise.all\<close> of run \<open>i\<close>: once
  every promise of the run has settled, and none rejected, it writes \<open>false\<close> to the lock
  of the run's kind. After a rejection it never runs.
\<close>

definition release :: "nat \<Rightarrow> world \<Rightarrow> world" where
  "release i W =
     (if i < length (runs W) \<and> unsettled (runs W ! i) = [] \<and> \<not> rejected (runs W ! i) \<and>
         \<not> released (runs W ! i) then
        (let W1 = priv_lock_set (triggeredOnChange (runs W ! i)) False W
         in W1\<lparr>runs := (runs W1)[i := (runs W1 ! i)\<lparr>released := True\<rparr>]\<rparr>)
      else W)"

datatype 'r step = Settle nat analyzer "'r outcome" | Release nat

fun step_run :: "'r step \<Rightarrow> nat" where
  "step_run (Settle i a out) = i"
| "step_run (Release i) = i"

fun exec_step :: "('r \<Rightarrow> js_reason + message list) \<Rightarrow> 'r step \<Rightarrow> world \<Rightarrow> world" where
  "exec_step v (Settle i a out) W = settle v i a out W"
| "exec_step v (Release i) W = release i W"

definition exec :: "('r \<Rightarrow> js_reason + message list) \<Rightarrow> 'r step list \<Rightarrow> world \<Rightarrow> world" where
  "exec v steps W = foldl (\<lambda>W s. exec_step v s W) W steps"

text \<open>The entry of an analyzer in the map its result scope selects.\<close>

definition entry :: "world \<Rightarrow> analyzer \<Rightarrow> message list option" where
  "entry W a = (if scope a = ''project'' then messagesProject (linter W) a
                else messages (session W) a)"

text \<open>
  The failure of an invocation, read off its outcome: the reason the analyzer threw or
  rejected with, or the reason the validation of its value threw.
\<close>

definition failure :: "('r \<Rightarrow> js_reason + message list) \<Rightarrow> 'r outcome \<Rightarrow> js_reason option" where
  "failure v out =
     (case out of
        Rejected error \<Rightarrow> Some error
      | Resolved r \<Rightarrow> (case v r of Inl error \<Rightarrow> Some error | Inr results \<Rightarrow> None))"


definition nullish_failure :: "('r \<Rightarrow> js_reason + message list) \<Rightarrow> 'r outcome \<Rightarrow> bool" where
  "nullish_failure v out = (failure v out = Some Nullish)"

fun is_AddError :: "event \<Rightarrow> bool" where
  "is_AddError (AddError m d) = True"
| "is_AddError e = False"

definition errors_in :: "event list \<Rightarrow> nat" where
  "errors_in tr = length (filter is_AddError tr)"

section \<open>lib/ui/bottom-panel.js\<close>

text \<open>
  The panel keeps a \<open>Map\<close> from each message to the element that shows it, here an
  association list in insertion order, and counts the visible ones. The element class
  of \<open>./message-element\<close> is outside these sources: what its \<open>updateVisibility(scope)\<close>
  decides is the parameter \<open>vis\<close>; the element keeps the decision in \<open>status\<close>, where
  the panel reads it again on removal, and returns itself.
\<close>

record 'm element =
  el_message :: 'm
  status :: bool

datatype 'm dom_op = AppendChild 'm | RemoveChild 'm

record 'm bottom_panel =
  visibility :: bool
  visibleMessages :: int
  configVisibility :: bool
  paneVisibility :: bool
  panel_scope :: string
  panel_messages :: "('m \<times> 'm element) list"
  panel_shown :: bool
  messagesElement :: "'m dom_op list"

definition fromMessage :: "'m \<Rightarrow> 'm element" where
  "fromMessage m = \<lparr>el_message = m, status = False\<rparr>"

definition el_updateVisibility :: "(string \<Rightarrow> 'm \<Rightarrow> bool) \<Rightarrow> string \<Rightarrow> 'm element \<Rightarrow> 'm element" where
  "el_updateVisibility vis sc el = el\<lparr>status := vis sc (el_message el)\<rparr>"

text \<open>The constructor: no message, a count of zero, the panel hidden.\<close>

definition BottomPanel :: "string \<Rightarrow> bool \<Rightarrow> bool \<Rightarrow> 'm bottom_panel" where
  "BottomPanel sc showErrorPanel paneActive =
     \<lparr>visibility = False, visibleMessages = 0, configVisibility = showErrorPanel,
      paneVisibility = paneActive, panel_scope = sc, panel_messages = [],
      panel_shown = False, messagesElement = []\<rparr>"

definition updateVisibility :: "'m bottom_panel \<Rightarrow> 'm bottom_panel" where
  "updateVisibility P =
     (let v = (configVisibility P \<and> paneVisibility P \<and> visibleMessages P > 0)
      in P\<lparr>visibility := v, panel_shown := v\<rparr>)"

text \<open>The loop of \<open>refresh\<close>: update every element, count those that report visible.\<close>

fun refresh_each ::
  "(string \<Rightarrow> 'm \<Rightarrow> bool) \<Rightarrow> string \<Rightarrow> ('m \<times> 'm element) list \<Rightarrow> int \<Rightarrow> ('m \<times> 'm element) list \<times> int" where
  "refresh_each vis sc [] n = ([], n)"
| "refresh_each vis sc ((m, el) # rest) n =
     (let el' = el_updateVisibility vis sc el;
          (rest', n') = refresh_each vis sc rest (if status el' then n + 1 else n)
      in ((m, el') # rest', n'))"

text \<open>\<open>refresh(scope)\<close>: a falsy argument (none, or the empty string) keeps the scope.\<close>

definition refresh :: "(string \<Rightarrow> 'm \<Rightarrow> bool) \<Rightarrow> string option \<Rightarrow> 'm bottom_panel \<Rightarrow> 'm bottom_panel" where
  "refresh vis arg P =
     (let sc = (case arg of None \<Rightarrow> panel_scope P
                | Some s \<Rightarrow> if s \<noteq> [] then s else panel_scope P);
          (ms, n) = refresh_each vis sc (panel_messages P) 0
      in updateVisibility (P\<lparr>panel_scope := sc, panel_messages := ms, visibleMessages := n\<rparr>))"

fun removeMessages :: "'m list \<Rightarrow> 'm bottom_panel \<Rightarrow> 'm bottom_panel" where
  "removeMessages [] P = P"
| "removeMessages (m # rest) P =
     removeMessages rest
       (case map_of (panel_messages P) m of
          None \<Rightarrow> P
        | Some el \<Rightarrow>
            P\<lparr>messagesElement := messagesElement P @ [RemoveChild m],
              panel_messages := AList.delete m (panel_messages P),
              visibleMessages := (if status el then visibleMessages P - 1 else visibleMessages P)\<rparr>)"

text \<open>The loop over \<open>added\<close>. \<open>Map.set\<close> on a key already present replaces its element.\<close>

fun addMessages :: "(string \<Rightarrow> 'm \<Rightarrow> bool) \<Rightarrow> 'm list \<Rightarrow> 'm bottom_panel \<Rightarrow> 'm bottom_panel" where
  "addMessages vis [] P = P"
| "addMessages vis (m # rest) P =
     (let el = el_updateVisibility vis (panel_scope P) (fromMessage m)
      in addMessages vis rest
           (P\<lparr>messagesElement := messagesElement P @ [AppendChild m],
              panel_messages := AList.update m el (panel_messages P),
              visibleMessages := (if status el then visibleMessages P + 1 else visibleMessages P)\<rparr>))"

definition panel_setMessages ::
  "(string \<Rightarrow> 'm \<Rightarrow> bool) \<Rightarrow> 'm list \<Rightarrow> 'm list \<Rightarrow> 'm bottom_panel \<Rightarrow> 'm bottom_panel" where
  "panel_setMessages vis added removed P =
     updateVisibility
       (addMessages vis added (if removed \<noteq> [] then removeMessages removed P else P))"

datatype 'm panel_call =
    SetMessages "'m list" "'m list"
  | RemoveMessages "'m list"
  | Refresh "string option"

fun apply_call :: "(string \<Rightarrow> 'm \<Rightarrow> bool) \<Rightarrow> 'm panel_call \<Rightarrow> 'm bottom_panel \<Rightarrow> 'm bottom_panel" where
  "apply_call vis (SetMessages added removed) P = panel_setMessages vis added removed P"
| "apply_call vis (RemoveMessages removed) P = removeMessages removed P"
| "apply_call vis (Refresh arg) P = refresh vis arg P"

fun panel_calls :: "(string \<Rightarrow> 'm \<Rightarrow> bool) \<Rightarrow> 'm panel_call list \<Rightarrow> 'm bottom_panel \<Rightarrow> 'm bottom_panel" where
  "panel_calls vis [] P = P"
| "panel_calls vis (c # cs) P = panel_calls vis cs (apply_call vis c P)"

text \<open>
  A sequence of calls feeds the panel differences when every \<open>setMessages\<close> adds each
  message once and adds none that is still tracked after its removals.
\<close>

fun fresh_adds :: "(string \<Rightarrow> 'm \<Rightarrow> bool) \<Rightarrow> 'm panel_call list \<Rightarrow> 'm bottom_panel \<Rightarrow> bool" where
  "fresh_adds vis [] P = True"
| "fresh_adds vis (SetMessages added removed # cs) P =
     (distinct added \<and>
      list_all (\<lambda>m. map_of (panel_messages (removeMessages removed P)) m = None) added \<and>
      fresh_adds vis cs (panel_setMessages vis added removed P))"
| "fresh_adds vis (c # cs) P = fresh_adds vis cs (apply_call vis c P)"

definition visible_count :: "'m bottom_panel \<Rightarrow> int" where
  "visible_count P = int (length (filter (\<lambda>p. status (snd p)) (panel_messages P)))"

text \<open>
  What the calls preserve: the map has one entry per message, every element belongs to
  its key and holds the visibility of its message under the panel's scope, and the
  counter equals the number of elements whose status is true.
\<close>

definition panel_inv :: "(string \<Rightarrow> 'm \<Rightarrow> bool) \<Rightarrow> 'm bottom_panel \<Rightarrow> bool" where
  "panel_inv vis P =
     (distinct (map fst (panel_messages P)) \<and>
      list_all (\<lambda>p. el_message (snd p) = fst p \<and> status (snd p) = vis (panel_scope P) (fst p))
        (panel_messages P) \<and>
      visibleMessages P = visible_count P)"

section \<open>The session with markers (unnamed part 000)\<close>

text \<open>
  A second session class: it takes the editor alone and checks it. A value handed to
  the constructor is an editor or anything else.
\<close>

datatype js_value = Undefined | Null | Str string | Num int | Obj nat | TextEditor editor_id

text \<open>
  What the session sees of the host: three configuration values, the listeners it has
  registered with the editor and the configuration, the gutters it has added to the
  editor, and the callbacks it has queued with \<open>setImmediate\<close>.
\<close>

record atom_env =
  cfg_underlineIssues :: bool
  cfg_gutterEnabled :: bool
  cfg_gutterPosition :: string
  listeners :: "string list"
  gutters :: "int list"
  immediates :: "string list"

record editor_linter_js =
  editor_js :: js_value
  emitter_js :: emitter
  messages_js :: "message list"
  gutterMarkers :: "(message \<times> nat) list"
  editorMarkers :: "(message \<times> nat) list"
  gutter :: "int option"
  subscriptions_js :: composite_disposable
  underlineIssues :: bool
  gutterEnabled :: bool

definition addGutter :: "atom_env \<Rightarrow> editor_linter_js \<Rightarrow> atom_env \<times> editor_linter_js" where
  "addGutter env s =
     (let priority = (if cfg_gutterPosition env = ''Left'' then - 100 else 100)
      in (env\<lparr>gutters := gutters env @ [priority]\<rparr>, s\<lparr>gutter := Some priority\<rparr>))"

definition removeGutter :: "editor_linter_js \<Rightarrow> event list \<times> editor_linter_js" where
  "removeGutter s =
     (case gutter s of None \<Rightarrow> ([], s) | Some g \<Rightarrow> ([GutterDestroyed], s\<lparr>gutter := None\<rparr>))"

definition handleGutter :: "atom_env \<Rightarrow> editor_linter_js \<Rightarrow> atom_env \<times> editor_linter_js" where
  "handleGutter env s =
     (let s1 = (if gutter s \<noteq> None then snd (removeGutter s) else s)
      in if cfg_gutterEnabled env then addGutter env s1 else (env, s1))"

text \<open>
  The constructor throws on anything that is not an editor, before it touches anything.
  On an editor it registers its listeners in the order of the source; the two
  \<open>observe\<close> calls run their callback at once. The handlers it puts on its own emitter
  for added and removed messages are numbered 0 and 1.
\<close>

fun instanceof_TextEditor :: "js_value \<Rightarrow> bool" where
  "instanceof_TextEditor (TextEditor ed) = True"
| "instanceof_TextEditor v = False"

definition constructor_js :: "atom_env \<Rightarrow> js_value \<Rightarrow> atom_env \<times> (js_error + editor_linter_js)" where
  "constructor_js env v =
     (if \<not> instanceof_TextEditor v
      then (env, Inl \<lparr>message = ''Given editor is not really an editor'', stack = []\<rparr>)
      else
        (let s0 = \<lparr>editor_js = v, emitter_js = emitter_new, messages_js = [],
                   gutterMarkers = [], editorMarkers = [], gutter = None,
                   subscriptions_js = composite_new,
                   underlineIssues = cfg_underlineIssues env,
                   gutterEnabled = cfg_gutterEnabled env\<rparr>;
             (env1, s1) = handleGutter env s0;
             subs = foldl (\<lambda>c d. composite_add d c) composite_new
                      [''config.observe linter.underlineIssues'', ''editor.onDidDestroy'',
                       ''editor.onDidSave'', ''editor.onDidChangeCursorPosition'',
                       ''config.observe linter.gutterEnabled'',
                       ''config.onDidChange linter.gutterPosition'',
                       ''onDidMessageAdd'', ''onDidMessageRemove'']
         in (env1\<lparr>listeners := listeners env1 @
                     [''config.observe linter.underlineIssues'', ''editor.onDidDestroy'',
                      ''editor.onDidSave'', ''editor.onDidChangeCursorPosition'',
                      ''config.observe linter.gutterEnabled'',
                      ''config.onDidChange linter.gutterPosition''],
                  immediates := immediates env1 @ [''editor.onDidStopChanging'']\<rparr>,
             Inr (s1\<lparr>subscriptions_js := subs,
                     emitter_js := \<lparr>handlersByEventName =
                                      [(''did-message-add'', 0), (''did-message-remove'', 1)],
                                    isDisposed = False\<rparr>\<rparr>))))"

definition onDidDestroy_js :: "nat \<Rightarrow> editor_linter_js \<Rightarrow> js_error + editor_linter_js" where
  "onDidDestroy_js cb s =
     (case emitter_on ''did-destroy'' cb (emitter_js s) of
        Inl e \<Rightarrow> Inl e
      | Inr em \<Rightarrow> Inr (s\<lparr>emitter_js := em\<rparr>))"

text \<open>
  \<open>dispose\<close> tests the \<open>size\<close> of the two marker maps. They are \<open>WeakMap\<close>s, which have
  no such property, so the test reads \<open>undefined\<close> and both branches are skipped.
\<close>

definition weakmap_size :: "(message \<times> nat) list \<Rightarrow> nat option" where
  "weakmap_size m = None"

definition dispose_js :: "editor_linter_js \<Rightarrow> event list \<times> editor_linter_js" where
  "dispose_js s =
     (let s1 = (if weakmap_size (editorMarkers s) \<noteq> None \<and> weakmap_size (editorMarkers s) \<noteq> Some 0
                then s\<lparr>editorMarkers := []\<rparr> else s);
          s2 = (if weakmap_size (gutterMarkers s1) \<noteq> None \<and> weakmap_size (gutterMarkers s1) \<noteq> Some 0
                then s1\<lparr>gutterMarkers := []\<rparr> else s1);
          (ev_gutter, s3) = removeGutter s2;
          (ev_subs, subs) = composite_dispose (subscriptions_js s3)
      in (ev_gutter @ ev_subs,
          s3\<lparr>subscriptions_js := subs, messages_js := [],
             emitter_js := emitter_dispose (emitter_js s3)\<rparr>))"

text \<open>\<open>destroy\<close>: emit \<open>did-destroy\<close>, then \<open>dispose\<close>, which disposes the emitter too.\<close>

definition destroy_js :: "editor_linter_js \<Rightarrow> event list \<times> editor_linter_js" where
  "destroy_js s =
     (let notes = emit (emitter_js s) ''did-destroy'';
          (gone, s1) = dispose_js s
      in (notes @ gone, s1))"

section \<open>Example inputs\<close>

definition demo_fly :: analyzer where
  "demo_fly = \<lparr>ident = 1, grammarScopes = [''source.js''], lintOnFly = Some True, scope = ''file''\<rparr>"

definition demo_save :: analyzer where
  "demo_save = \<lparr>ident = 2, grammarScopes = [''*''], lintOnFly = Some False, scope = ''project''\<rparr>"

definition demo_py :: analyzer where
  "demo_py = \<lparr>ident = 3, grammarScopes = [''source.python''], lintOnFly = Some True, scope = ''file''\<rparr>"

definition demo_world :: "bool \<Rightarrow> world" where
  "demo_world g =
     \<lparr>linter = \<lparr>activeEditor = 7, lintOnFlyGlobal = g,
                linters = [demo_fly, demo_save, demo_py], messagesProject = Map.empty\<rparr>,
      session = (constructor 7)\<lparr>emitter :=
                  \<lparr>handlersByEventName = [(''did-update'', 0), (''did-destroy'', 1)],
                   isDisposed = False\<rparr>\<rparr>,
      runs = [], trace = []\<rparr>"

definition demo_inactive :: world where
  "demo_inactive = (demo_world True)\<lparr>linter := (linter (demo_world True))\<lparr>activeEditor := 8\<rparr>\<rparr>"


definition demo_out :: "analyzer \<Rightarrow> message list outcome" where
  "demo_out a =
     (if a = demo_fly then Rejected (ErrorObject \<lparr>message = ''boom'', stack = ''at lint''\<rparr>)
      else Resolved [''unused variable''])"


definition demo_validate :: "message list \<Rightarrow> js_reason + message list" where
  "demo_validate r = Inr r"

definition demo_env :: atom_env where
  "demo_env = \<lparr>cfg_underlineIssues = True, cfg_gutterEnabled = True, cfg_gutterPosition = ''Right'',
               listeners = [], gutters = [], immediates = []\<rparr>"

definition demo_session_js :: editor_linter_js where
  "demo_session_js =
     \<lparr>editor_js = TextEditor 3,
      emitter_js = \<lparr>handlersByEventName =
                     [(''did-message-add'', 0), (''did-message-remove'', 1), (''did-destroy'', 5)],
                   isDisposed = False\<rparr>,
      messages_js = [''unused variable''],
      gutterMarkers = [], editorMarkers = [(''unused variable'', 4)], gutter = Some 100,
      subscriptions_js = \<lparr>disposables = [''editor.onDidDestroy'', ''editor.onDidSave''],
                          disposed = False\<rparr>,
      underlineIssues = True, gutterEnabled = True\<rparr>"

definition demo_vis :: "string \<Rightarrow> string \<Rightarrow> bool" where
  "demo_vis sc m = (sc = ''Project'' \<or> m \<noteq> ''elsewhere'')"

definition demo_calls :: "string panel_call list" where
  "demo_calls =
     [SetMessages [''a'', ''elsewhere''] [], Refresh (Some ''Project''),
      SetMessages [''b''] [''a''], RemoveMessages [''zzz'', ''elsewhere''], Refresh None]"

section \<open>Properties of lib/editor-linter.coffee\<close>

subsection \<open>Auxiliary facts\<close>

lemma priv_lint_filter:
  "priv_lint g w scopes ls =
     filter (\<lambda>a. (g \<longrightarrow> lintOnFly a = Some w) \<and> (\<exists>e \<in> set scopes. e \<in> set (grammarScopes a))) ls"
  by (induction ls) (auto simp: list_ex_iff)

lemma lint_entry: "entry (lint w c W) a = entry W a"
  by (simp add: lint_def priv_lock_get_def Let_def entry_def split: prod.splits)

lemma settle_other_entry:
  "a \<noteq> b \<Longrightarrow> entry (settle v i a out W) b = entry W b"
  by (auto simp: settle_def store_def setMessages_def entry_def Let_def
        split: prod.splits sum.splits)

lemma release_entry [simp]: "entry (release i W) b = entry W b"
  by (simp add: release_def priv_lock_set_def entry_def Let_def)

lemma settle_length_runs [simp]: "length (runs (settle v i a out W)) = length (runs W)"
  by (simp add: settle_def store_def Let_def split: prod.splits sum.splits)

lemma release_length_runs [simp]: "length (runs (release i W)) = length (runs W)"
  by (simp add: release_def priv_lock_set_def Let_def)

lemma settle_unsettled:
  "unsettled (runs (settle v i a out W) ! j) =
     (if j = i \<and> i < length (runs W) \<and> a \<in> set (unsettled (runs W ! i))
      then remove1 a (unsettled (runs W ! i)) else unsettled (runs W ! j))"
  by (auto simp: settle_def store_def Let_def nth_list_update split: prod.splits sum.splits)

lemma release_unsettled [simp]:
  "unsettled (runs (release i W) ! j) = unsettled (runs W ! j)"
  by (auto simp: release_def priv_lock_set_def Let_def nth_list_update)

lemma settle_released [simp]:
  "released (runs (settle v i a out W) ! j) = released (runs W ! j)"
  by (auto simp: settle_def store_def Let_def nth_list_update split: prod.splits sum.splits)


lemma errors_in_append [simp]: "errors_in (xs @ ys) = errors_in xs + errors_in ys"
  by (simp add: errors_in_def)

lemma errors_in_emit [simp]: "errors_in (emit em name) = 0"
  by (simp add: errors_in_def emit_def filter_empty_conv)


lemma collect_nullish:
  "nullish_failure v out \<Longrightarrow> \<exists>uncaught. collect v out = Inl uncaught"
  by (auto simp: collect_def catch_handler_def nullish_failure_def failure_def
        split: outcome.splits sum.splits js_reason.splits)






lemma release_errors [simp]: "errors_in (trace (release i W)) = errors_in (trace W)"
  by (simp add: release_def priv_lock_set_def Let_def errors_in_def)

lemma exec_Cons [simp]: "exec v (s # steps) W = exec v steps (exec_step v s W)"
  by (simp add: exec_def)

lemma exec_Nil [simp]: "exec v [] W = W"
  by (simp add: exec_def)

lemma exec_append [simp]: "exec v (xs @ ys) W = exec v ys (exec v xs W)"
  by (simp add: exec_def)

text \<open>
  Steps of run \<open>i\<close> leave alone the entry of an analyzer that run \<open>i\<close> is not waiting for.
\<close>

lemma exec_keeps_entry:
  "(i < length (runs W) \<Longrightarrow> b \<notin> set (unsettled (runs W ! i))) \<Longrightarrow>
   \<forall>s \<in> set steps. step_run s = i \<Longrightarrow> entry (exec v steps W) b = entry W b"
proof (induction steps arbitrary: W)
  case Nil
  then show ?case by simp
next
  case (Cons s steps)
  show ?case
  proof (cases s)
    case (Settle j a out)
    with Cons.prems have j: "j = i" by simp
    show ?thesis
    proof (cases "i < length (runs W) \<and> a \<in> set (unsettled (runs W ! i))")
      case True
      with Cons.prems(1) have ab: "a \<noteq> b" by auto
      have "entry (exec v steps (settle v i a out W)) b = entry (settle v i a out W) b"
      proof (rule Cons.IH)
        show "b \<notin> set (unsettled (runs (settle v i a out W) ! i))"
          using True Cons.prems(1) by (auto simp: settle_unsettled dest: notin_set_remove1)
        show "\<forall>s\<in>set steps. step_run s = i" using Cons.prems(2) by simp
      qed
      with ab show ?thesis using Settle j by (simp add: settle_other_entry)
    next
      case False
      then have "settle v i a out W = W" by (auto simp: settle_def)
      with Cons Settle j show ?thesis by simp
    qed
  next
    case (Release j)
    with Cons.prems have j: "j = i" by simp
    have "entry (exec v steps (release i W)) b = entry (release i W) b"
      by (rule Cons.IH) (use Cons.prems in auto)
    then show ?thesis using Release j by simp
  qed
qed


lemmas demo_defs = demo_fly_def demo_save_def demo_py_def demo_world_def constructor_def
  composite_add_def composite_new_def emitter_new_def

lemmas lint_defs = lint_def priv_lock_get_def truthy_def lock_key_def Let_def


subsection \<open>The lock\<close>

text \<open>
  C1: while a run of one kind is in flight, a further \<open>lint\<close> call of that kind should
  start nothing. The code reads the lock and, when the run is over, writes \<open>false\<close> to
  it, but nothing ever writes \<open>true\<close>. On the example session, active and with the global
  toggle on, two change-triggered calls in a row, with no promise settled in between,
  both read the lock free and both invoke the analyzer: two on-change runs are in flight
  at once.
\<close>

theorem lint_lock_never_taken:
  "runs (lint True [''source.js''] (demo_world True)) =
     [\<lparr>triggeredOnChange = True, unsettled = [demo_fly], rejected = False, released = False\<rparr>] \<and>
   props (session (lint True [''source.js''] (demo_world True))) = props (session (demo_world True)) \<and>
   runs (lint True [''source.js''] (lint True [''source.js''] (demo_world True))) =
     [\<lparr>triggeredOnChange = True, unsettled = [demo_fly], rejected = False, released = False\<rparr>,
      \<lparr>triggeredOnChange = True, unsettled = [demo_fly], rejected = False, released = False\<rparr>] \<and>
   count_list (trace (lint True [''source.js''] (lint True [''source.js''] (demo_world True))))
     (Invoke demo_fly) = 2"
  by (simp add: lint_defs demo_defs)

subsection \<open>The filters\<close>

text \<open>
  C2, as amended: for a registered analyzer that declares its \<open>lintOnFly\<close> flag and
  passes the scope filter, \<open>_lint\<close> invokes it, when the global lint-on-the-fly toggle is
  on, exactly if the flag equals the trigger kind (an on-the-fly analyzer on
  change-triggered runs only, an on-save analyzer on save-triggered runs only), and,
  when the toggle is off, on every run of either kind.
\<close>

theorem run_mode_filter:
  "a \<in> set ls \<Longrightarrow> \<exists>e \<in> set scopes. e \<in> set (grammarScopes a) \<Longrightarrow> lintOnFly a = Some onFly \<Longrightarrow>
   (a \<in> set (priv_lint g w scopes ls)) = (if g then onFly = w else True)"
  by (auto simp: priv_lint_filter)

theorem run_mode_filter_witness:
  "demo_fly \<in> set [demo_fly, demo_save] \<and>
   (\<exists>e \<in> set [''source.js'', ''*'']. e \<in> set (grammarScopes demo_fly)) \<and>
   lintOnFly demo_fly = Some True \<and>
   demo_fly \<in> set (priv_lint True True [''source.js'', ''*''] [demo_fly, demo_save]) \<and>
   demo_fly \<notin> set (priv_lint True False [''source.js'', ''*''] [demo_fly, demo_save]) \<and>
   demo_fly \<in> set (priv_lint False False [''source.js'', ''*''] [demo_fly, demo_save]) \<and>
   demo_fly \<in> set (priv_lint False True [''source.js'', ''*''] [demo_fly, demo_save])"
proof -
  have h1: "demo_fly \<in> set [demo_fly, demo_save]" by simp
  have h2: "\<exists>e \<in> set [''source.js'', ''*'']. e \<in> set (grammarScopes demo_fly)"
    by (simp add: demo_fly_def)
  have h3: "lintOnFly demo_fly = Some True" by (simp add: demo_fly_def)
  show ?thesis
    using h1 h2 h3 run_mode_filter [OF h1 h2 h3, of True True]
      run_mode_filter [OF h1 h2 h3, of True False]
      run_mode_filter [OF h1 h2 h3, of False False]
      run_mode_filter [OF h1 h2 h3, of False True]
    by simp
qed

text \<open>
  With the global toggle off, a save-triggered run invokes the analyzer that is
  restricted to on-the-fly mode.
\<close>

theorem run_mode_filter_counterexample:
  "lintOnFly demo_fly = Some True \<and> \<not> lintOnFlyGlobal (linter (demo_world False)) \<and>
   runs (lint False [''source.js''] (demo_world False)) =
     [\<lparr>triggeredOnChange = False, unsettled = [demo_fly, demo_save], rejected = False, released = False\<rparr>] \<and>
   count_list (trace (lint False [''source.js''] (demo_world False))) (Invoke demo_fly) = 1"
  by (simp add: lint_defs demo_defs)

text \<open>
  C5: a call of \<open>lint\<close> does not invoke an analyzer none of whose grammar scopes is among
  the scopes at the cursor extended with \<open>*\<close>, and whatever the promises of the run it
  starts do afterwards, in any order and with any outcome, that analyzer's entry in the
  snapshot stays as it was before the call.
\<close>

theorem scope_filter_excludes:
  assumes "set (grammarScopes b) \<inter> (set cursorScopes \<union> {''*''}) = {}"
    and "\<forall>s \<in> set steps. step_run s = length (runs W)"
  shows "count_list (trace (lint w cursorScopes W)) (Invoke b) = count_list (trace W) (Invoke b) \<and>
         entry (exec v steps (lint w cursorScopes W)) b = entry W b"
proof -
  let ?W1 = "lint w cursorScopes W"
  have notin: "b \<notin> set (priv_lint g w (cursorScopes @ [''*'']) ls)" for g ls
    using assms(1) by (auto simp: priv_lint_filter)
  have cnt: "count_list (map Invoke xs) (Invoke b) = 0" if "b \<notin> set xs" for xs
    using that by (induction xs) auto
  have c1: "count_list (trace ?W1) (Invoke b) = count_list (trace W) (Invoke b)"
    using cnt [OF notin]
    by (simp add: lint_def priv_lock_get_def Let_def split: prod.splits)
  have un: "b \<notin> set (unsettled (runs ?W1 ! length (runs W)))" if "length (runs W) < length (runs ?W1)"
    using that notin
    by (auto simp: lint_def priv_lock_get_def Let_def nth_append split: prod.splits if_splits)
  have "entry (exec v steps ?W1) b = entry ?W1 b"
    by (rule exec_keeps_entry [where i = "length (runs W)"]) (use un assms(2) in auto)
  then show ?thesis using c1 by (simp add: lint_entry)
qed

theorem scope_filter_excludes_witness:
  "set (grammarScopes demo_py) \<inter> (set [''source.js''] \<union> {''*''}) = {} \<and>
   map step_run [Settle 0 demo_fly (demo_out demo_fly), Settle 0 demo_py (demo_out demo_py),
                 Settle 0 demo_save (demo_out demo_save), Release 0] = [0, 0, 0, 0] \<and>
   count_list (trace (lint False [''source.js''] (demo_world False))) (Invoke demo_py) = 0 \<and>
   entry (exec demo_validate
           [Settle 0 demo_fly (demo_out demo_fly), Settle 0 demo_py (demo_out demo_py),
            Settle 0 demo_save (demo_out demo_save), Release 0]
           (lint False [''source.js''] (demo_world False))) demo_py = None"
proof -
  have h1: "set (grammarScopes demo_py) \<inter> (set [''source.js''] \<union> {''*''}) = {}"
    by (simp add: demo_py_def)
  have h2: "\<forall>s \<in> set [Settle 0 demo_fly (demo_out demo_fly), Settle 0 demo_py (demo_out demo_py),
                 Settle 0 demo_save (demo_out demo_save), Release 0].
              step_run s = length (runs (demo_world False))"
    by (simp add: demo_world_def)
  have e: "entry (demo_world False) demo_py = None"
    by (simp add: entry_def demo_defs)
  have c: "count_list (trace (demo_world False)) (Invoke demo_py) = 0"
    by (simp add: demo_world_def)
  show ?thesis
    using scope_filter_excludes [OF h1 h2, of False demo_validate] h1 e c by simp
qed

subsection \<open>Settlement\<close>






subsection \<open>The inactive session\<close>

text \<open>
  C10: a call of \<open>lint\<close> on a session whose editor is not the active editor returns the
  state it was given: no lock is read or written, no analyzer is invoked, no run starts
  and both message maps are as before.
\<close>

theorem lint_inactive_noop:
  "editor (session W) \<noteq> activeEditor (linter W) \<Longrightarrow> lint wasTriggeredOnChange cursorScopes W = W"
  by (simp add: lint_def)

theorem lint_inactive_noop_witness:
  "editor (session demo_inactive) \<noteq> activeEditor (linter demo_inactive) \<and>
   lint True [''source.js''] demo_inactive = demo_inactive"
proof -
  have h: "editor (session demo_inactive) \<noteq> activeEditor (linter demo_inactive)"
    by (simp add: demo_inactive_def demo_world_def constructor_def)
  show ?thesis using h lint_inactive_noop [OF h, of True "[''source.js'']"] by simp
qed

section \<open>Properties of lib/ui/bottom-panel.js\<close>

subsection \<open>Auxiliary facts\<close>

lemma updateVisibility_fields [simp]:
  "panel_messages (updateVisibility P) = panel_messages P"
  "visibleMessages (updateVisibility P) = visibleMessages P"
  "panel_scope (updateVisibility P) = panel_scope P"
  "messagesElement (updateVisibility P) = messagesElement P"
  by (simp_all add: updateVisibility_def Let_def)

lemma visible_count_updateVisibility [simp]:
  "visible_count (updateVisibility P) = visible_count P"
  by (simp add: visible_count_def)

lemma panel_inv_updateVisibility [simp]:
  "panel_inv vis (updateVisibility P) = panel_inv vis P"
  by (simp add: panel_inv_def)

lemma update_fresh:
  "m \<notin> fst ` set al \<Longrightarrow> AList.update m v al = al @ [(m, v)]"
  by (induction al) auto

lemma count_delete:
  "distinct (map fst al) \<Longrightarrow> map_of al m = Some el \<Longrightarrow>
   int (length (filter f (AList.delete m al))) =
     int (length (filter f al)) - (if f (m, el) then 1 else 0)"
proof (induction al)
  case Nil
  then show ?case by simp
next
  case (Cons p al)
  show ?case
  proof (cases "fst p = m")
    case True
    with Cons.prems have "m \<notin> fst ` set al" and "p = (m, el)"
      by (auto simp: rev_image_eqI)
    then show ?thesis by (simp add: AList.delete_id)
  next
    case False
    with Cons show ?thesis by (cases p) auto
  qed
qed

lemma removeMessages_scope [simp]: "panel_scope (removeMessages removed P) = panel_scope P"
  by (induction removed arbitrary: P) (auto split: option.splits)

lemma addMessages_scope [simp]: "panel_scope (addMessages vis added P) = panel_scope P"
  by (induction added arbitrary: P) (auto simp: Let_def)

lemma panel_inv_removeMessages:
  "panel_inv vis P \<Longrightarrow> panel_inv vis (removeMessages removed P)"
proof (induction removed arbitrary: P)
  case Nil
  then show ?case by simp
next
  case (Cons m rest)
  show ?case
  proof (cases "map_of (panel_messages P) m")
    case None
    with Cons show ?thesis by simp
  next
    case (Some el)
    let ?P = "P\<lparr>messagesElement := messagesElement P @ [RemoveChild m],
                panel_messages := AList.delete m (panel_messages P),
                visibleMessages := (if status el then visibleMessages P - 1 else visibleMessages P)\<rparr>"
    have d: "distinct (map fst (panel_messages P))" using Cons.prems by (simp add: panel_inv_def)
    have cnt: "visible_count ?P = visible_count P - (if status el then 1 else 0)"
      using count_delete [OF d Some, of "\<lambda>p. status (snd p)"] by (simp add: visible_count_def)
    have sub: "set (AList.delete m (panel_messages P)) \<subseteq> set (panel_messages P)"
      by (auto simp: AList.delete_eq)
    have "panel_inv vis ?P"
      unfolding panel_inv_def
    proof (intro conjI)
      show "distinct (map fst (panel_messages ?P))" using d by (simp add: distinct_delete)
      show "list_all (\<lambda>p. el_message (snd p) = fst p \<and>
              status (snd p) = vis (panel_scope ?P) (fst p)) (panel_messages ?P)"
        using Cons.prems sub by (auto simp: panel_inv_def list_all_iff)
      show "visibleMessages ?P = visible_count ?P"
        using Cons.prems cnt by (simp add: panel_inv_def)
    qed
    then have "panel_inv vis (removeMessages rest ?P)" by (rule Cons.IH)
    with Some show ?thesis by simp
  qed
qed

lemma panel_inv_addMessages:
  "panel_inv vis P \<Longrightarrow> distinct added \<Longrightarrow> set added \<inter> fst ` set (panel_messages P) = {} \<Longrightarrow>
   panel_inv vis (addMessages vis added P)"
proof (induction added arbitrary: P)
  case Nil
  then show ?case by simp
next
  case (Cons m rest)
  let ?el = "el_updateVisibility vis (panel_scope P) (fromMessage m)"
  let ?P = "P\<lparr>messagesElement := messagesElement P @ [AppendChild m],
              panel_messages := AList.update m ?el (panel_messages P),
              visibleMessages := (if status ?el then visibleMessages P + 1 else visibleMessages P)\<rparr>"
  have fresh: "m \<notin> fst ` set (panel_messages P)" using Cons.prems by auto
  have upd: "AList.update m v (panel_messages P) = panel_messages P @ [(m, v)]" for v
    using fresh by (rule update_fresh)
  have "panel_inv vis ?P"
    using Cons.prems fresh
    by (auto simp: panel_inv_def upd visible_count_def el_updateVisibility_def fromMessage_def)
  moreover have "distinct rest" using Cons.prems by simp
  moreover have "set rest \<inter> fst ` set (panel_messages ?P) = {}"
    using Cons.prems by (auto simp: upd)
  ultimately have "panel_inv vis (addMessages vis rest ?P)" by (rule Cons.IH)
  then show ?case by (simp add: Let_def)
qed

lemma refresh_each_eq:
  "refresh_each vis sc ms n =
     (map (\<lambda>p. (fst p, el_updateVisibility vis sc (snd p))) ms,
      n + int (length (filter (\<lambda>p. vis sc (el_message (snd p))) ms)))"
  by (induction ms arbitrary: n) (auto simp: Let_def el_updateVisibility_def)

lemma panel_inv_refresh:
  "panel_inv vis P \<Longrightarrow> panel_inv vis (refresh vis arg P)"
  by (auto simp: refresh_def refresh_each_eq panel_inv_def visible_count_def Let_def comp_def
        el_updateVisibility_def filter_map list_all_iff split: option.splits)

lemma panel_inv_setMessages:
  "panel_inv vis P \<Longrightarrow> distinct added \<Longrightarrow>
   list_all (\<lambda>m. map_of (panel_messages (removeMessages removed P)) m = None) added \<Longrightarrow>
   panel_inv vis (panel_setMessages vis added removed P)"
proof -
  assume inv: "panel_inv vis P" and d: "distinct added"
    and fr: "list_all (\<lambda>m. map_of (panel_messages (removeMessages removed P)) m = None) added"
  let ?P = "if removed \<noteq> [] then removeMessages removed P else P"
  have eq: "?P = removeMessages removed P" by (cases removed) simp_all
  have "panel_inv vis ?P" using inv by (simp add: eq panel_inv_removeMessages)
  moreover have "set added \<inter> fst ` set (panel_messages ?P) = {}"
    using fr unfolding eq by (auto simp: list_all_iff map_of_eq_None_iff)
  ultimately have "panel_inv vis (addMessages vis added ?P)" using d
    by (intro panel_inv_addMessages)
  then show ?thesis by (simp add: panel_setMessages_def)
qed

lemma panel_inv_calls:
  "panel_inv vis P \<Longrightarrow> fresh_adds vis calls P \<Longrightarrow> panel_inv vis (panel_calls vis calls P)"
proof (induction calls arbitrary: P)
  case Nil
  then show ?case by simp
next
  case (Cons c calls)
  show ?case
  proof (cases c)
    case (SetMessages added removed)
    with Cons.prems have "panel_inv vis (panel_setMessages vis added removed P)"
      by (simp add: panel_inv_setMessages)
    with Cons SetMessages show ?thesis by simp
  next
    case (RemoveMessages removed)
    with Cons show ?thesis by (simp add: panel_inv_removeMessages)
  next
    case (Refresh arg)
    with Cons show ?thesis by (simp add: panel_inv_refresh)
  qed
qed

lemma panel_inv_new: "panel_inv vis (BottomPanel sc cfg pane)"
  by (simp add: panel_inv_def BottomPanel_def visible_count_def)

lemma removeMessages_dom:
  "\<exists>rs. set rs = set removed \<inter> fst ` set (panel_messages P) \<and>
        messagesElement (removeMessages removed P) = messagesElement P @ map RemoveChild rs"
proof (induction removed arbitrary: P)
  case Nil
  then show ?case by simp
next
  case (Cons m rest)
  show ?case
  proof (cases "map_of (panel_messages P) m")
    case None
    then have "m \<notin> fst ` set (panel_messages P)" by (simp add: map_of_eq_None_iff)
    with Cons.IH [of P] None show ?thesis by auto
  next
    case (Some el)
    let ?P = "P\<lparr>messagesElement := messagesElement P @ [RemoveChild m],
                panel_messages := AList.delete m (panel_messages P),
                visibleMessages := (if status el then visibleMessages P - 1 else visibleMessages P)\<rparr>"
    from Cons.IH [of ?P] obtain rs where
      rs: "set rs = set rest \<inter> fst ` set (panel_messages ?P)"
          "messagesElement (removeMessages rest ?P) = messagesElement ?P @ map RemoveChild rs"
      by blast
    have m: "m \<in> fst ` set (panel_messages P)"
      using Some by (metis map_of_eq_None_iff option.distinct(1))
    have keys: "fst ` set (AList.delete m (panel_messages P)) = fst ` set (panel_messages P) - {m}"
      by (auto simp: AList.delete_eq rev_image_eqI)
    have "set (m # rs) = set (m # rest) \<inter> fst ` set (panel_messages P)"
      using rs(1) m keys by auto
    moreover have "messagesElement (removeMessages (m # rest) P) =
                    messagesElement P @ map RemoveChild (m # rs)"
      using rs(2) Some by simp
    ultimately show ?thesis by blast
  qed
qed

lemma addMessages_dom:
  "messagesElement (addMessages vis added P) = messagesElement P @ map AppendChild added"
  by (induction added arbitrary: P) (auto simp: Let_def)

subsection \<open>Order of removals and additions\<close>

text \<open>
  C6: one call of the panel's \<open>setMessages\<close> is the additions applied to the panel that
  all the removals have left. What it does to the message container is, in this order,
  the removal of the tracked messages among \<open>removed\<close> and then the insertion of the
  messages of \<open>added\<close>: every removal comes before every addition.
\<close>

theorem removals_before_additions:
  "panel_setMessages vis added removed P =
     updateVisibility (addMessages vis added (removeMessages removed P)) \<and>
   (\<exists>rs. set rs = set removed \<inter> fst ` set (panel_messages P) \<and>
         messagesElement (panel_setMessages vis added removed P) =
           messagesElement P @ map RemoveChild rs @ map AppendChild added)"
proof -
  let ?P = "if removed \<noteq> [] then removeMessages removed P else P"
  have eq: "?P = removeMessages removed P" by (cases removed) simp_all
  from removeMessages_dom [of removed P] obtain rs where
    "set rs = set removed \<inter> fst ` set (panel_messages P)"
    "messagesElement (removeMessages removed P) = messagesElement P @ map RemoveChild rs"
    by blast
  then show ?thesis
    unfolding panel_setMessages_def eq by (auto simp: addMessages_dom)
qed

subsection \<open>The counter of visible messages\<close>

text \<open>
  C7, as amended: start from a new panel and make any sequence of \<open>setMessages\<close>,
  \<open>removeMessages\<close> and \<open>refresh\<close> calls in which every \<open>setMessages\<close> lists each added
  message once and adds none that is still tracked after its removals. Then
  \<open>visibleMessages\<close> is the number of tracked messages whose element has status true,
  and the status of every element is the visibility of its message under the panel's
  current scope.
\<close>

theorem visible_count_exact:
  "fresh_adds vis calls (BottomPanel sc cfg pane) \<Longrightarrow>
   visibleMessages (panel_calls vis calls (BottomPanel sc cfg pane)) =
     visible_count (panel_calls vis calls (BottomPanel sc cfg pane)) \<and>
   list_all (\<lambda>p. status (snd p) = vis (panel_scope (panel_calls vis calls (BottomPanel sc cfg pane))) (fst p))
     (panel_messages (panel_calls vis calls (BottomPanel sc cfg pane)))"
  using panel_inv_calls [OF panel_inv_new, of vis calls sc cfg pane]
  by (simp add: panel_inv_def list_all_iff)

theorem visible_count_exact_witness:
  "fresh_adds demo_vis demo_calls (BottomPanel ''File'' True True) \<and>
   visibleMessages (panel_calls demo_vis [SetMessages [''a'', ''elsewhere''] []]
                      (BottomPanel ''File'' True True)) = 1 \<and>
   map fst (panel_messages (panel_calls demo_vis demo_calls (BottomPanel ''File'' True True))) = [''b''] \<and>
   visibleMessages (panel_calls demo_vis demo_calls (BottomPanel ''File'' True True)) = 1 \<and>
   visible_count (panel_calls demo_vis demo_calls (BottomPanel ''File'' True True)) = 1"
proof -
  have h: "fresh_adds demo_vis demo_calls (BottomPanel ''File'' True True)"
    by (simp add: demo_calls_def panel_setMessages_def refresh_def BottomPanel_def
          updateVisibility_def demo_vis_def el_updateVisibility_def fromMessage_def Let_def)
  have h1: "fresh_adds demo_vis [SetMessages [''a'', ''elsewhere''] []] (BottomPanel ''File'' True True)"
    by (simp add: BottomPanel_def)
  have c: "visible_count (panel_calls demo_vis demo_calls (BottomPanel ''File'' True True)) = 1"
    by (simp add: demo_calls_def panel_setMessages_def refresh_def BottomPanel_def
          updateVisibility_def demo_vis_def el_updateVisibility_def fromMessage_def Let_def
          visible_count_def)
  have c1: "visible_count (panel_calls demo_vis [SetMessages [''a'', ''elsewhere''] []]
              (BottomPanel ''File'' True True)) = 1"
    by (simp add: panel_setMessages_def BottomPanel_def updateVisibility_def demo_vis_def
          el_updateVisibility_def fromMessage_def Let_def visible_count_def)
  have k: "map fst (panel_messages (panel_calls demo_vis demo_calls (BottomPanel ''File'' True True))) = [''b'']"
    by (simp add: demo_calls_def panel_setMessages_def refresh_def BottomPanel_def
          updateVisibility_def demo_vis_def el_updateVisibility_def fromMessage_def Let_def)
  show ?thesis
    using visible_count_exact [OF h] visible_count_exact [OF h1] h c c1 k by simp
qed

text \<open>
  Adding one visible message twice in a single call leaves one tracked message and a
  counter of two.
\<close>

theorem visible_count_counterexample:
  "map fst (panel_messages (panel_calls demo_vis [SetMessages [''a'', ''a''] []]
                              (BottomPanel ''File'' True True))) = [''a''] \<and>
   visibleMessages (panel_calls demo_vis [SetMessages [''a'', ''a''] []] (BottomPanel ''File'' True True)) = 2 \<and>
   visible_count (panel_calls demo_vis [SetMessages [''a'', ''a''] []] (BottomPanel ''File'' True True)) = 1"
  by (simp add: panel_setMessages_def BottomPanel_def visible_count_def demo_vis_def
       el_updateVisibility_def fromMessage_def Let_def)

section \<open>Properties of the two sessions' construction and destruction\<close>

subsection \<open>Auxiliary facts\<close>

lemma composite_dispose_twice:
  "composite_dispose (snd (composite_dispose c)) = ([], snd (composite_dispose c))"
  by (simp add: composite_dispose_def)

lemma emit_disposed [simp]: "emit (emitter_dispose em) name = []"
  by (simp add: emit_def emitter_dispose_def)

lemma removeGutter_twice [simp]: "removeGutter (snd (removeGutter s)) = ([], snd (removeGutter s))"
  by (simp add: removeGutter_def split: option.splits)

lemma removeGutter_fields [simp]:
  "subscriptions_js (snd (removeGutter s)) = subscriptions_js s"
  "emitter_js (snd (removeGutter s)) = emitter_js s"
  "messages_js (snd (removeGutter s)) = messages_js s"
  "editor_js (snd (removeGutter s)) = editor_js s"
  by (simp_all add: removeGutter_def split: option.splits)

lemma handleGutter_editor [simp]: "editor_js (snd (handleGutter env s)) = editor_js s"
  by (simp add: handleGutter_def addGutter_def Let_def)

lemma dispose_js_eq:
  "dispose_js s =
     (fst (removeGutter s) @ fst (composite_dispose (subscriptions_js s)),
      (snd (removeGutter s))\<lparr>subscriptions_js := snd (composite_dispose (subscriptions_js s)),
        messages_js := [], emitter_js := emitter_dispose (emitter_js s)\<rparr>)"
  by (simp add: dispose_js_def weakmap_size_def Let_def case_prod_beta)

lemma removeGutter_update [simp]:
  "removeGutter (s\<lparr>subscriptions_js := c, messages_js := ms, emitter_js := em\<rparr>) =
     (fst (removeGutter s),
      (snd (removeGutter s))\<lparr>subscriptions_js := c, messages_js := ms, emitter_js := em\<rparr>)"
  by (simp add: removeGutter_def split: option.splits)

lemma emitter_dispose_twice [simp]: "emitter_dispose (emitter_dispose em) = emitter_dispose em"
  by (simp add: emitter_dispose_def)

lemma destroy_js_twice: "destroy_js (snd (destroy_js s)) = ([], snd (destroy_js s))"
  by (simp add: destroy_js_def dispose_js_eq composite_dispose_twice Let_def case_prod_beta)

subsection \<open>Destruction\<close>

text \<open>
  C8, as amended: \<open>destroy\<close> calls the handlers of \<open>did-destroy\<close> and then disposes all the
  subscriptions of the session, in both session classes. The session with markers
  disposes its emitter as well, so that a second \<open>destroy\<close> calls no handler, disposes
  nothing and leaves the session as it is. The session of lib/editor-linter.coffee
  keeps its emitter: a second \<open>destroy\<close> disposes nothing more and calls the handlers of
  \<open>did-destroy\<close> again.
\<close>

theorem destroy_emits_then_disposes:
  "trace (destroy W) =
     trace W @ emit (emitter (session W)) ''did-destroy'' @
       fst (composite_dispose (subscriptions (session W))) \<and>
   disposed (subscriptions (session (destroy W))) \<and>
   trace (destroy (destroy W)) = trace (destroy W) @ emit (emitter (session W)) ''did-destroy'' \<and>
   fst (destroy_js s) =
     emit (emitter_js s) ''did-destroy'' @ fst (removeGutter s) @
       fst (composite_dispose (subscriptions_js s)) \<and>
   disposed (subscriptions_js (snd (destroy_js s))) \<and>
   destroy_js (snd (destroy_js s)) = ([], snd (destroy_js s))"
proof (intro conjI)
  show "trace (destroy W) =
     trace W @ emit (emitter (session W)) ''did-destroy'' @
       fst (composite_dispose (subscriptions (session W)))"
    by (simp add: destroy_def Let_def case_prod_beta)
  show "disposed (subscriptions (session (destroy W)))"
    by (simp add: destroy_def composite_dispose_def Let_def case_prod_beta)
  show "trace (destroy (destroy W)) = trace (destroy W) @ emit (emitter (session W)) ''did-destroy''"
    by (simp add: destroy_def composite_dispose_def Let_def case_prod_beta)
  show "fst (destroy_js s) =
     emit (emitter_js s) ''did-destroy'' @ fst (removeGutter s) @
       fst (composite_dispose (subscriptions_js s))"
    by (simp add: destroy_js_def dispose_js_eq Let_def case_prod_beta)
  show "disposed (subscriptions_js (snd (destroy_js s)))"
    by (simp add: destroy_js_def dispose_js_eq composite_dispose_def Let_def case_prod_beta)
  show "destroy_js (snd (destroy_js s)) = ([], snd (destroy_js s))"
    by (rule destroy_js_twice)
qed

theorem destroy_emits_then_disposes_witness:
  "fst (destroy_js demo_session_js) =
     [Notify ''did-destroy'' 5, GutterDestroyed, Disposed ''editor.onDidDestroy'',
      Disposed ''editor.onDidSave''] \<and>
   fst (destroy_js (snd (destroy_js demo_session_js))) = [] \<and>
   trace (destroy (demo_world True)) =
     [Notify ''did-destroy'' 1, Disposed ''onDidSave'', Disposed ''onDidChangeCursorPosition'',
      Disposed ''onDidStopChanging'']"
  using destroy_emits_then_disposes [of "demo_world True" demo_session_js]
  by (simp add: demo_session_js_def demo_world_def constructor_def emit_def handlers_for_def
        removeGutter_def composite_dispose_def composite_add_def composite_new_def)

text \<open>
  On the session of lib/editor-linter.coffee with one handler of \<open>did-destroy\<close>, two
  calls of \<open>destroy\<close> call that handler twice.
\<close>

theorem destroy_counterexample:
  "trace (destroy (demo_world True)) =
     [Notify ''did-destroy'' 1, Disposed ''onDidSave'', Disposed ''onDidChangeCursorPosition'',
      Disposed ''onDidStopChanging''] \<and>
   trace (destroy (destroy (demo_world True))) =
     [Notify ''did-destroy'' 1, Disposed ''onDidSave'', Disposed ''onDidChangeCursorPosition'',
      Disposed ''onDidStopChanging'', Notify ''did-destroy'' 1]"
  by (simp add: destroy_def demo_world_def constructor_def composite_dispose_def composite_add_def
        composite_new_def emit_def handlers_for_def Let_def)

subsection \<open>Construction\<close>

text \<open>
  C9: the constructor of the session with markers, given a value that is not an editor,
  throws and leaves the host as it was: no listener registered, no gutter added, nothing
  queued, no session. Given an editor it returns a session over that editor.
\<close>

theorem constructor_checks_editor:
  "(if instanceof_TextEditor v
    then \<exists>s. snd (constructor_js env v) = Inr s \<and> editor_js s = v
    else constructor_js env v =
           (env, Inl \<lparr>message = ''Given editor is not really an editor'', stack = []\<rparr>))"
  by (simp add: constructor_js_def Let_def case_prod_beta)

theorem constructor_checks_editor_witness:
  "constructor_js demo_env (Str ''buffer'') =
     (demo_env, Inl \<lparr>message = ''Given editor is not really an editor'', stack = []\<rparr>) \<and>
   constructor_js demo_env Null =
     (demo_env, Inl \<lparr>message = ''Given editor is not really an editor'', stack = []\<rparr>) \<and>
   (\<exists>s. snd (constructor_js demo_env (TextEditor 3)) = Inr s \<and> editor_js s = TextEditor 3)"
  using constructor_checks_editor [of "Str ''buffer''" demo_env]
    constructor_checks_editor [of Null demo_env]
    constructor_checks_editor [of "TextEditor 3" demo_env]
  by simp

end
